theory Spec2Isabelle
  imports Complex_Main "HOL-Library.Sublist"
begin

section \<open>The graph interface and the search record\<close>

text \<open>
  \<^verbatim>\<open>EAStar.h\<close> reads the graph only through \<^verbatim>\<open>IGraph\<close> and through the
  accessors of the node and connection objects. Neither is declared in the header, so
  they are parameters of the model: a node pointer is a value of type \<open>'n\<close>, a
  connection pointer a value of type \<open>'c\<close>, the methods are the fields below.
  Equality on \<open>'n\<close> and \<open>'c\<close> is pointer equality. \<^verbatim>\<open>float\<close> is read as
  \<open>real\<close>: sums are exact and every two costs are comparable.
\<close>

type_synonym Vector2 = "real \<times> real"

type_synonym Heuristic = "real \<Rightarrow> real \<Rightarrow> real"

record ('n, 'c) IGraph =
  GetNode :: "int \<Rightarrow> 'n"
  GetNodePos :: "'n \<Rightarrow> Vector2"
  GetNodeConnections :: "int \<Rightarrow> 'c list"
  GetIndex :: "'n \<Rightarrow> int"
  GetFrom :: "'c \<Rightarrow> int"
  GetTo :: "'c \<Rightarrow> int"
  GetCost :: "'c \<Rightarrow> real"

text \<open>The two members of the \<^verbatim>\<open>AStar\<close> object.\<close>

record ('n, 'c) AStar =
  m_pGraph :: "('n, 'c) IGraph"
  m_HeuristicFunction :: Heuristic

text \<open>\<^verbatim>\<open>struct NodeRecord\<close>; \<open>None\<close> is the null connection of the start record.\<close>

record ('n, 'c) NodeRecord =
  pNode :: 'n
  pConnection :: "'c option"
  gCost :: real
  fCost :: real

text \<open>
  \<^verbatim>\<open>NodeRecord::operator==\<close>. The helper \<^verbatim>\<open>AreEqual\<close> on floats belongs to the
  framework and is not in the header; it is the parameter \<open>AreEqual\<close>.
\<close>

definition NodeRecord_eq ::
  "(real \<Rightarrow> real \<Rightarrow> bool) \<Rightarrow> ('n, 'c) NodeRecord \<Rightarrow> ('n, 'c) NodeRecord \<Rightarrow> bool" where
  "NodeRecord_eq AreEqual r other \<longleftrightarrow>
     pNode r = pNode other
     \<and> pConnection r = pConnection other
     \<and> AreEqual (gCost r) (gCost other)
     \<and> AreEqual (fCost r) (fCost other)"

text \<open>
  What stops a call other than a return: the \<^verbatim>\<open>assert\<close> of step 2.g, and the
  dereference of a null \<^verbatim>\<open>pConnection\<close> in step 3.
\<close>

datatype failure = AssertionFailed | NullConnection

section \<open>FindPath\<close>

text \<open>\<^verbatim>\<open>GetHeuristicCost\<close>: the heuristic of the absolute displacement per axis.\<close>

definition GetHeuristicCost :: "('n, 'c) AStar \<Rightarrow> 'n \<Rightarrow> 'n \<Rightarrow> real" where
  "GetHeuristicCost this pStartNode pEndNode =
     (case (GetNodePos (m_pGraph this) pEndNode, GetNodePos (m_pGraph this) pStartNode) of
        ((ex, ey), (sx, sy)) \<Rightarrow> m_HeuristicFunction this \<bar>ex - sx\<bar> \<bar>ey - sy\<bar>)"

text \<open>Step 1: the start record; \<^verbatim>\<open>gCost\<close> keeps its default \<open>0\<close>.\<close>

definition startRecord :: "('n, 'c) AStar \<Rightarrow> 'n \<Rightarrow> 'n \<Rightarrow> ('n, 'c) NodeRecord" where
  "startRecord this pStartNode pGoalNode =
     \<lparr>pNode = pStartNode, pConnection = None, gCost = 0,
      fCost = GetHeuristicCost this pStartNode pGoalNode\<rparr>"

text \<open>
  Step 2.a: \<^verbatim>\<open>currentRecord = openList[0]\<close>, then one pass over the list that replaces
  the candidate only by a record of strictly lower \<^verbatim>\<open>fCost\<close>.
\<close>

definition lower_fCost ::
  "('n, 'c) NodeRecord \<Rightarrow> ('n, 'c) NodeRecord \<Rightarrow> ('n, 'c) NodeRecord" where
  "lower_fCost currentRecord recordFromList =
     (if fCost recordFromList < fCost currentRecord then recordFromList else currentRecord)"

definition lowest_fCost ::
  "('n, 'c) NodeRecord \<Rightarrow> ('n, 'c) NodeRecord list \<Rightarrow> ('n, 'c) NodeRecord" where
  "lowest_fCost first openList = foldl lower_fCost first openList"

text \<open>
  Step 2.d, the scan of the closed list. A record of the target sets \<^verbatim>\<open>isInClosed\<close>;
  only a more expensive one is erased, and only then does the scan stop.
\<close>

fun scan_closed ::
  "'n \<Rightarrow> real \<Rightarrow> ('n, 'c) NodeRecord list \<Rightarrow> bool \<times> ('n, 'c) NodeRecord list" where
  "scan_closed pGetToNode g [] = (False, [])"
| "scan_closed pGetToNode g (r # rs) =
     (if pNode r = pGetToNode
      then (if gCost r > g then (True, rs)
            else (True, r # snd (scan_closed pGetToNode g rs)))
      else (fst (scan_closed pGetToNode g rs), r # snd (scan_closed pGetToNode g rs)))"

text \<open>
  Step 2.e, the scan of the open list. It stops at the first record of the target,
  erased when more expensive.
\<close>

fun scan_open ::
  "'n \<Rightarrow> real \<Rightarrow> ('n, 'c) NodeRecord list \<Rightarrow> bool \<times> ('n, 'c) NodeRecord list" where
  "scan_open pGetToNode g [] = (False, [])"
| "scan_open pGetToNode g (r # rs) =
     (if pNode r = pGetToNode
      then (True, if gCost r > g then rs else r # rs)
      else (fst (scan_open pGetToNode g rs), r # snd (scan_open pGetToNode g rs)))"

text \<open>Step 2.f: the record pushed for a connection that was not skipped.\<close>

definition newRecord ::
  "('n, 'c) AStar \<Rightarrow> 'n \<Rightarrow> 'c \<Rightarrow> real \<Rightarrow> ('n, 'c) NodeRecord" where
  "newRecord this pGoalNode pConn g =
     \<lparr>pNode = GetNode (m_pGraph this) (GetTo (m_pGraph this) pConn),
      pConnection = Some pConn, gCost = g,
      fCost = g + GetHeuristicCost this
                (GetNode (m_pGraph this) (GetTo (m_pGraph this) pConn)) pGoalNode\<rparr>"

text \<open>
  The body of the loop over \<^verbatim>\<open>connectionList\<close> for one connection, on the pair of the
  open and the closed list. Each \<^verbatim>\<open>continue\<close> is a branch that returns the worklists as
  the scans left them.
\<close>

definition process_connection ::
  "('n, 'c) AStar \<Rightarrow> 'n \<Rightarrow> ('n, 'c) NodeRecord \<Rightarrow>
   ('n, 'c) NodeRecord list \<times> ('n, 'c) NodeRecord list \<Rightarrow> 'c \<Rightarrow>
   ('n, 'c) NodeRecord list \<times> ('n, 'c) NodeRecord list" where
  "process_connection this pGoalNode currentRecord worklists pConn =
     (case worklists of (openList, closedList) \<Rightarrow>
        (case scan_closed (GetNode (m_pGraph this) (GetTo (m_pGraph this) pConn))
                (GetCost (m_pGraph this) pConn + gCost currentRecord) closedList of
           (isInClosed, closedList') \<Rightarrow>
             if isInClosed then (openList, closedList')
             else
               (case scan_open (GetNode (m_pGraph this) (GetTo (m_pGraph this) pConn))
                       (GetCost (m_pGraph this) pConn + gCost currentRecord) openList of
                  (isInOpen, openList') \<Rightarrow>
                    if isInOpen then (openList', closedList')
                    else (openList' @
                            [newRecord this pGoalNode pConn
                               (GetCost (m_pGraph this) pConn + gCost currentRecord)],
                          closedList'))))"

text \<open>Steps 2.c to 2.f: all connections of the current node, in the order of the graph.\<close>

definition expand ::
  "('n, 'c) AStar \<Rightarrow> 'n \<Rightarrow> ('n, 'c) NodeRecord \<Rightarrow>
   ('n, 'c) NodeRecord list \<times> ('n, 'c) NodeRecord list \<Rightarrow>
   ('n, 'c) NodeRecord list \<times> ('n, 'c) NodeRecord list" where
  "expand this pGoalNode currentRecord worklists =
     foldl (process_connection this pGoalNode currentRecord) worklists
       (GetNodeConnections (m_pGraph this)
          (GetIndex (m_pGraph this) (pNode currentRecord)))"

text \<open>
  Step 2.g: \<^verbatim>\<open>std::find\<close> with \<^verbatim>\<open>operator==\<close> and the erase of what it found;
  \<open>None\<close> when it reaches \<^verbatim>\<open>end()\<close>, where the \<^verbatim>\<open>assert\<close> fails.
\<close>

fun find_erase ::
  "(real \<Rightarrow> real \<Rightarrow> bool) \<Rightarrow> ('n, 'c) NodeRecord \<Rightarrow> ('n, 'c) NodeRecord list \<Rightarrow>
   ('n, 'c) NodeRecord list option" where
  "find_erase AreEqual currentRecord [] = None"
| "find_erase AreEqual currentRecord (r # rs) =
     (if NodeRecord_eq AreEqual r currentRecord then Some rs
      else map_option ((#) r) (find_erase AreEqual currentRecord rs))"

text \<open>
  One pass of the \<^verbatim>\<open>while\<close> body after the goal test: expansion, then the move of the
  current record from the open to the closed list.
\<close>

definition close_current ::
  "(real \<Rightarrow> real \<Rightarrow> bool) \<Rightarrow> ('n, 'c) AStar \<Rightarrow> 'n \<Rightarrow> ('n, 'c) NodeRecord \<Rightarrow>
   ('n, 'c) NodeRecord list \<times> ('n, 'c) NodeRecord list \<Rightarrow>
   (('n, 'c) NodeRecord list \<times> ('n, 'c) NodeRecord list) option" where
  "close_current AreEqual this pGoalNode currentRecord worklists =
     (case expand this pGoalNode currentRecord worklists of
        (openList', closedList') \<Rightarrow>
          map_option (\<lambda>openList''. (openList'', closedList' @ [currentRecord]))
            (find_erase AreEqual currentRecord openList'))"

text \<open>
  Step 2, the search loop, on the triple of \<^verbatim>\<open>currentRecord\<close>, \<^verbatim>\<open>openList\<close> and
  \<^verbatim>\<open>closedList\<close>. It returns the triple at the exit: by \<^verbatim>\<open>break\<close> the open list
  still holds the current record, otherwise it is empty. A run that never leaves the loop
  has the value \<open>None\<close>.
\<close>

partial_function (option) search ::
  "(real \<Rightarrow> real \<Rightarrow> bool) \<Rightarrow> ('n, 'c) AStar \<Rightarrow> 'n \<Rightarrow>
   ('n, 'c) NodeRecord \<times> ('n, 'c) NodeRecord list \<times> ('n, 'c) NodeRecord list \<Rightarrow>
   (failure + ('n, 'c) NodeRecord \<times> ('n, 'c) NodeRecord list \<times> ('n, 'c) NodeRecord list) option"
  where
  "search AreEqual this pGoalNode state =
     (case state of (currentRecord, openList, closedList) \<Rightarrow>
        (case openList of
           [] \<Rightarrow> Some (Inr (currentRecord, openList, closedList))
         | first # rest \<Rightarrow>
             if pNode (lowest_fCost first openList) = pGoalNode
             then Some (Inr (lowest_fCost first openList, openList, closedList))
             else
               (case close_current AreEqual this pGoalNode (lowest_fCost first openList)
                       (openList, closedList) of
                  None \<Rightarrow> Some (Inl AssertionFailed)
                | Some (openList', closedList') \<Rightarrow>
                    search AreEqual this pGoalNode
                      (lowest_fCost first openList, openList', closedList'))))"

text \<open>
  The \<^verbatim>\<open>for\<close> loop of step 3: the first closed record whose node is the source of
  the current record's connection. The connection is dereferenced once per closed record,
  so an empty closed list never touches it.
\<close>

fun find_previous ::
  "('n, 'c) IGraph \<Rightarrow> ('n, 'c) NodeRecord \<Rightarrow> ('n, 'c) NodeRecord list \<Rightarrow>
   failure + ('n, 'c) NodeRecord option" where
  "find_previous G currentRecord [] = Inr None"
| "find_previous G currentRecord (r # rs) =
     (case pConnection currentRecord of
        None \<Rightarrow> Inl NullConnection
      | Some pConn \<Rightarrow>
          if pNode r = GetNode G (GetFrom G pConn) then Inr (Some r)
          else find_previous G currentRecord rs)"

text \<open>
  The \<^verbatim>\<open>while\<close> loop of step 3. When the \<^verbatim>\<open>for\<close> loop finds nothing it leaves
  every variable as it was and the \<^verbatim>\<open>while\<close> test is taken again.
\<close>

partial_function (option) reconstruct ::
  "('n, 'c) IGraph \<Rightarrow> 'n \<Rightarrow> ('n, 'c) NodeRecord list \<Rightarrow> ('n, 'c) NodeRecord \<Rightarrow> 'n list \<Rightarrow>
   (failure + 'n list) option" where
  "reconstruct G pStartNode closedList currentRecord path =
     (if pNode currentRecord = pStartNode then Some (Inr path)
      else
        (case find_previous G currentRecord closedList of
           Inl e \<Rightarrow> Some (Inl e)
         | Inr None \<Rightarrow> reconstruct G pStartNode closedList currentRecord path
         | Inr (Some r) \<Rightarrow> reconstruct G pStartNode closedList r (path @ [pNode r])))"

text \<open>
  The tail of \<^verbatim>\<open>FindPath\<close> on what the search loop left: push the goal, walk
  back from the current record through the closed list, reverse.
\<close>

definition backtrack ::
  "('n, 'c) AStar \<Rightarrow> 'n \<Rightarrow> 'n \<Rightarrow>
   failure + ('n, 'c) NodeRecord \<times> ('n, 'c) NodeRecord list \<times> ('n, 'c) NodeRecord list \<Rightarrow>
   (failure + 'n list) option" where
  "backtrack this pStartNode pGoalNode found =
     (case found of
        Inl e \<Rightarrow> Some (Inl e)
      | Inr (currentRecord, openList, closedList) \<Rightarrow>
          map_option (map_sum id rev)
            (reconstruct (m_pGraph this) pStartNode closedList currentRecord [pGoalNode]))"

text \<open>The state in which the search loop is entered: the start record alone is open.\<close>

definition initial_state ::
  "('n, 'c) AStar \<Rightarrow> 'n \<Rightarrow> 'n \<Rightarrow>
   ('n, 'c) NodeRecord \<times> ('n, 'c) NodeRecord list \<times> ('n, 'c) NodeRecord list" where
  "initial_state this pStartNode pGoalNode =
     (startRecord this pStartNode pGoalNode, [startRecord this pStartNode pGoalNode], [])"

text \<open>
  \<^verbatim>\<open>FindPath\<close>. \<open>Some (Inr path)\<close> is the returned vector, \<open>Some (Inl e)\<close> a stop
  at \<open>e\<close>, \<open>None\<close> a call that never returns.
\<close>

definition FindPath ::
  "(real \<Rightarrow> real \<Rightarrow> bool) \<Rightarrow> ('n, 'c) AStar \<Rightarrow> 'n \<Rightarrow> 'n \<Rightarrow> (failure + 'n list) option" where
  "FindPath AreEqual this pStartNode pGoalNode =
     Option.bind
       (search AreEqual this pGoalNode (initial_state this pStartNode pGoalNode))
       (backtrack this pStartNode pGoalNode)"

section \<open>Properties of graphs, records and paths\<close>

text \<open>Every connection that the graph hands out has a cost of at least \<open>0\<close>.\<close>

definition nonnegative_costs :: "('n, 'c) IGraph \<Rightarrow> bool" where
  "nonnegative_costs G \<longleftrightarrow>
     (\<forall>idx. \<forall>pConn \<in> set (GetNodeConnections G idx). 0 \<le> GetCost G pConn)"

text \<open>
  Two nodes are joined when some connection of the graph has the first as its source and
  the second as its destination.
\<close>

definition joined :: "('n, 'c) IGraph \<Rightarrow> 'n \<Rightarrow> 'n \<Rightarrow> bool" where
  "joined G u v \<longleftrightarrow>
     (\<exists>idx. \<exists>pConn \<in> set (GetNodeConnections G idx).
        GetNode G (GetFrom G pConn) = u \<and> GetNode G (GetTo G pConn) = v)"

text \<open>
  What every record of a run satisfies: without a connection it is a record of the start
  node; with one, the connection is a connection of the graph and leads to the record's
  node.
\<close>

definition sound_record :: "('n, 'c) IGraph \<Rightarrow> 'n \<Rightarrow> ('n, 'c) NodeRecord \<Rightarrow> bool" where
  "sound_record G pStartNode r \<longleftrightarrow>
     (case pConnection r of
        None \<Rightarrow> pNode r = pStartNode
      | Some pConn \<Rightarrow>
          (\<exists>idx. pConn \<in> set (GetNodeConnections G idx))
          \<and> GetNode G (GetTo G pConn) = pNode r)"

section \<open>Concrete graphs\<close>

text \<open>
  For the runs on concrete graphs the parameter \<open>AreEqual\<close> is the comparison within
  the tolerance \<open>1 / 2 ^ 23\<close>, the epsilon of \<^verbatim>\<open>float\<close>.
\<close>

definition within_epsilon :: "real \<Rightarrow> real \<Rightarrow> bool" where
  "within_epsilon a b \<longleftrightarrow> \<not> \<bar>a - b\<bar> > 1 / 2 ^ 23"

definition zero_heuristic :: Heuristic where
  "zero_heuristic x y = 0"

definition Manhattan :: Heuristic where
  "Manhattan x y = x + y"

text \<open>
  The graph of the concrete scenario: nodes A, B, C, D with indices 0 to 3 and the
  connections A\<rightarrow>B (1), A\<rightarrow>C (4), B\<rightarrow>C (1), B\<rightarrow>D (5), C\<rightarrow>D (1), listed per node in this
  order; the zero heuristic.
\<close>

datatype node4 = NodeA | NodeB | NodeC | NodeD

datatype conn4 = ConnAB | ConnAC | ConnBC | ConnBD | ConnCD

fun index4 :: "node4 \<Rightarrow> int" where
  "index4 NodeA = 0"
| "index4 NodeB = 1"
| "index4 NodeC = 2"
| "index4 NodeD = 3"

definition node4_at :: "int \<Rightarrow> node4" where
  "node4_at i =
     (if i = 0 then NodeA else if i = 1 then NodeB else if i = 2 then NodeC else NodeD)"

definition connections4 :: "int \<Rightarrow> conn4 list" where
  "connections4 i =
     (if i = 0 then [ConnAB, ConnAC] else if i = 1 then [ConnBC, ConnBD]
      else if i = 2 then [ConnCD] else [])"

fun from4 :: "conn4 \<Rightarrow> int" where
  "from4 ConnAB = 0"
| "from4 ConnAC = 0"
| "from4 ConnBC = 1"
| "from4 ConnBD = 1"
| "from4 ConnCD = 2"

fun to4 :: "conn4 \<Rightarrow> int" where
  "to4 ConnAB = 1"
| "to4 ConnAC = 2"
| "to4 ConnBC = 2"
| "to4 ConnBD = 3"
| "to4 ConnCD = 3"

fun cost4 :: "conn4 \<Rightarrow> real" where
  "cost4 ConnAB = 1"
| "cost4 ConnAC = 4"
| "cost4 ConnBC = 1"
| "cost4 ConnBD = 5"
| "cost4 ConnCD = 1"

definition graph4 :: "(node4, conn4) IGraph" where
  "graph4 =
     \<lparr>GetNode = node4_at, GetNodePos = (\<lambda>n. (0, 0)), GetNodeConnections = connections4,
      GetIndex = index4, GetFrom = from4, GetTo = to4, GetCost = cost4\<rparr>"

definition astar4 :: "(node4, conn4) AStar" where
  "astar4 = \<lparr>m_pGraph = graph4, m_HeuristicFunction = zero_heuristic\<rparr>"

text \<open>The same nodes with the single connection A\<rightarrow>B: D cannot be reached from A.\<close>

definition dead_end_connections :: "int \<Rightarrow> conn4 list" where
  "dead_end_connections i = (if i = 0 then [ConnAB] else [])"

definition dead_end_graph :: "(node4, conn4) IGraph" where
  "dead_end_graph =
     \<lparr>GetNode = node4_at, GetNodePos = (\<lambda>n. (0, 0)),
      GetNodeConnections = dead_end_connections,
      GetIndex = index4, GetFrom = from4, GetTo = to4, GetCost = cost4\<rparr>"

definition dead_end_astar :: "(node4, conn4) AStar" where
  "dead_end_astar = \<lparr>m_pGraph = dead_end_graph, m_HeuristicFunction = zero_heuristic\<rparr>"

text \<open>
  A graph on which a closed node is reached again more cheaply: nodes S, P, Q, G with
  indices 0 to 3, connections S\<rightarrow>P (10), S\<rightarrow>Q (1), P\<rightarrow>G (200), Q\<rightarrow>P (1). Q lies at
  \<open>(100, 0)\<close>, the other nodes at the origin, and the heuristic is the Manhattan
  distance: \<open>100\<close> at Q, below the cost \<open>201\<close> of its way to G, and \<open>0\<close> elsewhere.
\<close>

datatype nodeR = NodeS | NodeP | NodeQ | NodeG

datatype connR = ConnSP | ConnSQ | ConnPG | ConnQP

fun indexR :: "nodeR \<Rightarrow> int" where
  "indexR NodeS = 0"
| "indexR NodeP = 1"
| "indexR NodeQ = 2"
| "indexR NodeG = 3"

definition nodeR_at :: "int \<Rightarrow> nodeR" where
  "nodeR_at i =
     (if i = 0 then NodeS else if i = 1 then NodeP else if i = 2 then NodeQ else NodeG)"

fun posR :: "nodeR \<Rightarrow> Vector2" where
  "posR NodeS = (0, 0)"
| "posR NodeP = (0, 0)"
| "posR NodeQ = (100, 0)"
| "posR NodeG = (0, 0)"

definition connectionsR :: "int \<Rightarrow> connR list" where
  "connectionsR i =
     (if i = 0 then [ConnSP, ConnSQ] else if i = 1 then [ConnPG]
      else if i = 2 then [ConnQP] else [])"

fun fromR :: "connR \<Rightarrow> int" where
  "fromR ConnSP = 0"
| "fromR ConnSQ = 0"
| "fromR ConnPG = 1"
| "fromR ConnQP = 2"

fun toR :: "connR \<Rightarrow> int" where
  "toR ConnSP = 1"
| "toR ConnSQ = 2"
| "toR ConnPG = 3"
| "toR ConnQP = 1"

fun costR :: "connR \<Rightarrow> real" where
  "costR ConnSP = 10"
| "costR ConnSQ = 1"
| "costR ConnPG = 200"
| "costR ConnQP = 1"

definition graphR :: "(nodeR, connR) IGraph" where
  "graphR =
     \<lparr>GetNode = nodeR_at, GetNodePos = posR, GetNodeConnections = connectionsR,
      GetIndex = indexR, GetFrom = fromR, GetTo = toR, GetCost = costR\<rparr>"

definition astarR :: "(nodeR, connR) AStar" where
  "astarR = \<lparr>m_pGraph = graphR, m_HeuristicFunction = Manhattan\<rparr>"

text \<open>
  The same graph with the connection Q\<rightarrow>P listed twice at Q. G can still be reached from
  S, over Q and P.
\<close>

definition connectionsR_twice :: "int \<Rightarrow> connR list" where
  "connectionsR_twice i =
     (if i = 0 then [ConnSP, ConnSQ] else if i = 1 then [ConnPG]
      else if i = 2 then [ConnQP, ConnQP] else [])"

definition graphR_twice :: "(nodeR, connR) IGraph" where
  "graphR_twice =
     \<lparr>GetNode = nodeR_at, GetNodePos = posR, GetNodeConnections = connectionsR_twice,
      GetIndex = indexR, GetFrom = fromR, GetTo = toR, GetCost = costR\<rparr>"

definition astarR_twice :: "(nodeR, connR) AStar" where
  "astarR_twice = \<lparr>m_pGraph = graphR_twice, m_HeuristicFunction = Manhattan\<rparr>"

text \<open>The records that the runs below meet.\<close>

definition rec4 :: "node4 \<Rightarrow> conn4 option \<Rightarrow> real \<Rightarrow> (node4, conn4) NodeRecord" where
  "rec4 n c g = \<lparr>pNode = n, pConnection = c, gCost = g, fCost = g\<rparr>"

definition recR :: "nodeR \<Rightarrow> connR option \<Rightarrow> real \<Rightarrow> real \<Rightarrow> (nodeR, connR) NodeRecord" where
  "recR n c g f = \<lparr>pNode = n, pConnection = c, gCost = g, fCost = f\<rparr>"

section \<open>Start equals goal\<close>

text \<open>
  C7. For every node \<open>n\<close>, whatever the graph, the heuristic and \<open>AreEqual\<close>,
  \<^verbatim>\<open>FindPath(n, n)\<close> returns the sequence that holds exactly \<open>n\<close>: the start record
  is selected, it is a record of the goal, and the walk back stops at once.
\<close>

theorem FindPath_start_is_goal:
  "FindPath AreEqual this n n = Some (Inr [n])"
  by (simp add: FindPath_def initial_state_def search.simps reconstruct.simps backtrack_def
      lowest_fCost_def lower_fCost_def startRecord_def)

section \<open>Selection of the current record\<close>

lemma foldl_lower_fCost_split:
  "\<exists>pre post. a # xs = pre @ foldl lower_fCost a xs # post
     \<and> (\<forall>r \<in> set pre. fCost (foldl lower_fCost a xs) < fCost r)
     \<and> (\<forall>r \<in> set post. fCost (foldl lower_fCost a xs) \<le> fCost r)"
proof (induction xs rule: rev_induct)
  case Nil
  show ?case by (intro exI[of _ "[]"]) simp
next
  case (snoc x xs)
  let ?m = "foldl lower_fCost a xs"
  from snoc obtain pre post where split: "a # xs = pre @ ?m # post"
    and before: "\<forall>r \<in> set pre. fCost ?m < fCost r"
    and after: "\<forall>r \<in> set post. fCost ?m \<le> fCost r"
    by blast
  show ?case
  proof (cases "fCost x < fCost ?m")
    case True
    have all: "\<forall>r \<in> set (a # xs). fCost x < fCost r"
      unfolding split using True before after by fastforce
    have "a # (xs @ [x]) = (a # xs) @ x # []" by simp
    with True all show ?thesis
      unfolding foldl_append lower_fCost_def
      by (intro exI[of _ "a # xs"] exI[of _ "[]"]) simp
  next
    case False
    have "a # (xs @ [x]) = pre @ ?m # (post @ [x])" using split by simp
    with False before after show ?thesis
      unfolding foldl_append lower_fCost_def
      by (intro exI[of _ pre] exI[of _ "post @ [x]"]) auto
  qed
qed

lemma lowest_fCost_Cons: "lowest_fCost first (first # rest) = foldl lower_fCost first rest"
  by (simp add: lowest_fCost_def lower_fCost_def)

lemma lowest_fCost_in_open: "lowest_fCost first (first # rest) \<in> set (first # rest)"
proof -
  obtain pre post where "first # rest = pre @ lowest_fCost first (first # rest) # post"
    using foldl_lower_fCost_split[of first rest] unfolding lowest_fCost_Cons by blast
  then have "set (first # rest) = set (pre @ lowest_fCost first (first # rest) # post)"
    by simp
  then show ?thesis by simp
qed

text \<open>
  The position in the open list is the order of discovery: the scans and the erase of
  step 2.g only take records out, and \<^verbatim>\<open>push_back\<close> puts a new record behind all
  others.
\<close>

lemma scan_open_subseq: "subseq (snd (scan_open t g xs)) xs"
  by (induction xs) auto

lemma find_erase_subseq: "find_erase AreEqual x xs = Some ys \<Longrightarrow> subseq ys xs"
  by (induction xs arbitrary: ys) (auto split: if_splits)

lemma process_connection_unfold:
  "process_connection this pGoalNode cur (openList, closedList) pConn =
     (if fst (scan_closed (GetNode (m_pGraph this) (GetTo (m_pGraph this) pConn))
                (GetCost (m_pGraph this) pConn + gCost cur) closedList)
      then (openList,
            snd (scan_closed (GetNode (m_pGraph this) (GetTo (m_pGraph this) pConn))
                   (GetCost (m_pGraph this) pConn + gCost cur) closedList))
      else if fst (scan_open (GetNode (m_pGraph this) (GetTo (m_pGraph this) pConn))
                     (GetCost (m_pGraph this) pConn + gCost cur) openList)
      then (snd (scan_open (GetNode (m_pGraph this) (GetTo (m_pGraph this) pConn))
                   (GetCost (m_pGraph this) pConn + gCost cur) openList),
            snd (scan_closed (GetNode (m_pGraph this) (GetTo (m_pGraph this) pConn))
                   (GetCost (m_pGraph this) pConn + gCost cur) closedList))
      else (snd (scan_open (GetNode (m_pGraph this) (GetTo (m_pGraph this) pConn))
                   (GetCost (m_pGraph this) pConn + gCost cur) openList)
              @ [newRecord this pGoalNode pConn (GetCost (m_pGraph this) pConn + gCost cur)],
            snd (scan_closed (GetNode (m_pGraph this) (GetTo (m_pGraph this) pConn))
                   (GetCost (m_pGraph this) pConn + gCost cur) closedList)))"
  by (simp add: process_connection_def case_prod_beta)

lemma process_connection_open_order:
  "\<exists>kept. subseq kept openList
     \<and> (fst (process_connection this pGoalNode cur (openList, closedList) pConn) = kept
        \<or> fst (process_connection this pGoalNode cur (openList, closedList) pConn)
            = kept @ [newRecord this pGoalNode pConn
                        (GetCost (m_pGraph this) pConn + gCost cur)])"
proof -
  let ?t = "GetNode (m_pGraph this) (GetTo (m_pGraph this) pConn)"
  let ?g = "GetCost (m_pGraph this) pConn + gCost cur"
  have "fst (process_connection this pGoalNode cur (openList, closedList) pConn) = openList
      \<or> fst (process_connection this pGoalNode cur (openList, closedList) pConn)
          = snd (scan_open ?t ?g openList)
      \<or> fst (process_connection this pGoalNode cur (openList, closedList) pConn)
          = snd (scan_open ?t ?g openList) @ [newRecord this pGoalNode pConn ?g]"
    by (simp add: process_connection_unfold)
  then show ?thesis
    using scan_open_subseq[of ?t ?g openList] subseq_order.order_refl[of openList] by blast
qed

text \<open>
  C8. In every pass of the search loop the open list is \<open>first # rest\<close> and the record
  taken is \<open>lowest_fCost first (first # rest)\<close>. It stands in the open list, every record
  before it has a strictly higher \<open>fCost\<close> and every record after it an \<open>fCost\<close> that is
  not lower: it is the earliest record of minimal \<open>fCost\<close>, and nothing but \<open>fCost\<close> and
  the position decides.
\<close>

theorem lowest_fCost_first_minimum:
  "\<exists>pre post. first # rest = pre @ lowest_fCost first (first # rest) # post
     \<and> (\<forall>r \<in> set pre. fCost (lowest_fCost first (first # rest)) < fCost r)
     \<and> (\<forall>r \<in> set post. fCost (lowest_fCost first (first # rest)) \<le> fCost r)"
  unfolding lowest_fCost_Cons by (rule foldl_lower_fCost_split)

text \<open>
  C8, at an open list whose second and third record tie at the lowest \<open>fCost\<close>: the
  second is taken.
\<close>

theorem lowest_fCost_first_minimum_witness:
  "lowest_fCost (rec4 NodeC (Some ConnAC) 4)
     [rec4 NodeC (Some ConnAC) 4, rec4 NodeB (Some ConnAB) 1, rec4 NodeD (Some ConnBD) 1]
   = rec4 NodeB (Some ConnAB) 1
   \<and> (\<exists>pre post.
        [rec4 NodeC (Some ConnAC) 4, rec4 NodeB (Some ConnAB) 1, rec4 NodeD (Some ConnBD) 1]
          = pre @ rec4 NodeB (Some ConnAB) 1 # post
        \<and> (\<forall>r \<in> set pre. fCost (rec4 NodeB (Some ConnAB) 1) < fCost r)
        \<and> (\<forall>r \<in> set post. fCost (rec4 NodeB (Some ConnAB) 1) \<le> fCost r))"
proof -
  have low: "lowest_fCost (rec4 NodeC (Some ConnAC) 4)
     [rec4 NodeC (Some ConnAC) 4, rec4 NodeB (Some ConnAB) 1, rec4 NodeD (Some ConnBD) 1]
   = rec4 NodeB (Some ConnAB) 1"
    by (simp add: lowest_fCost_def lower_fCost_def rec4_def)
  show ?thesis
    using lowest_fCost_first_minimum
      [of "rec4 NodeC (Some ConnAC) 4" "[rec4 NodeB (Some ConnAB) 1, rec4 NodeD (Some ConnBD) 1]"]
    unfolding low by simp
qed

section \<open>The current record survives its own expansion\<close>

lemma scan_open_keeps:
  "x \<in> set xs \<Longrightarrow> \<not> (pNode x = t \<and> g < gCost x) \<Longrightarrow> x \<in> set (snd (scan_open t g xs))"
  by (induction xs) auto

lemma process_connection_keeps_current:
  assumes "cur \<in> set openList" and "0 \<le> GetCost (m_pGraph this) pConn"
  shows "cur \<in> set (fst (process_connection this pGoalNode cur (openList, closedList) pConn))"
proof -
  have "\<not> (GetCost (m_pGraph this) pConn + gCost cur < gCost cur)"
    using assms(2) by simp
  then have "cur \<in> set (snd (scan_open (GetNode (m_pGraph this) (GetTo (m_pGraph this) pConn))
                 (GetCost (m_pGraph this) pConn + gCost cur) openList))"
    using assms(1) by (intro scan_open_keeps) auto
  with assms(1) show ?thesis
    by (simp add: process_connection_unfold)
qed

lemma foldl_process_connection_keeps_current:
  assumes "cur \<in> set (fst worklists)"
    and "\<forall>pConn \<in> set conns. 0 \<le> GetCost (m_pGraph this) pConn"
  shows "cur \<in> set (fst (foldl (process_connection this pGoalNode cur) worklists conns))"
  using assms
proof (induction conns arbitrary: worklists)
  case Nil
  then show ?case by simp
next
  case (Cons pConn conns)
  obtain openList closedList where w: "worklists = (openList, closedList)"
    by (cases worklists)
  have "cur \<in> set (fst (process_connection this pGoalNode cur worklists pConn))"
    using Cons.prems unfolding w by (simp add: process_connection_keeps_current)
  with Cons show ?case by simp
qed

lemma find_erase_succeeds:
  "x \<in> set xs \<Longrightarrow> NodeRecord_eq AreEqual x x \<Longrightarrow> find_erase AreEqual x xs \<noteq> None"
  by (induction xs) auto

lemma close_current_succeeds:
  assumes "nonnegative_costs (m_pGraph this)" and "\<forall>x. AreEqual x x"
    and "cur \<in> set openList"
  shows "cur \<in> set (fst (expand this pGoalNode cur (openList, closedList)))"
    and "close_current AreEqual this pGoalNode cur (openList, closedList) \<noteq> None"
proof -
  show in_open: "cur \<in> set (fst (expand this pGoalNode cur (openList, closedList)))"
    unfolding expand_def using assms(1,3)
    by (intro foldl_process_connection_keeps_current) (auto simp: nonnegative_costs_def)
  have "NodeRecord_eq AreEqual cur cur"
    using assms(2) by (simp add: NodeRecord_eq_def)
  with in_open
  have "find_erase AreEqual cur (fst (expand this pGoalNode cur (openList, closedList))) \<noteq> None"
    by (rule find_erase_succeeds)
  then show "close_current AreEqual this pGoalNode cur (openList, closedList) \<noteq> None"
    by (simp add: close_current_def case_prod_beta)
qed

text \<open>The search loop never stops at the assertion: induction over its passes.\<close>

lemma search_failure_free_aux:
  assumes run: "search AreEqual this pGoalNode state = Some y"
  shows "nonnegative_costs (m_pGraph this) \<and> (\<forall>x. AreEqual x x) \<longrightarrow> (\<forall>e. y \<noteq> Inl e)"
proof (rule search.raw_induct
    [where P = "\<lambda>AreEqual this pGoalNode state y.
        nonnegative_costs (m_pGraph this) \<and> (\<forall>x. AreEqual x x) \<longrightarrow> (\<forall>e. y \<noteq> Inl e)",
     OF _ run], goal_cases)
  case (1 srch AreEqual this pGoalNode state y)
  show ?case
  proof (intro impI)
    assume hyp: "nonnegative_costs (m_pGraph this) \<and> (\<forall>x. AreEqual x x)"
    obtain cur openList closedList where st: "state = (cur, openList, closedList)"
      by (cases state)
    show "\<forall>e. y \<noteq> Inl e"
    proof (cases openList)
      case Nil
      with 1(2) st show ?thesis by auto
    next
      case (Cons first rest)
      let ?low = "lowest_fCost first openList"
      have "?low \<in> set openList"
        unfolding Cons by (rule lowest_fCost_in_open)
      with hyp have "close_current AreEqual this pGoalNode ?low (openList, closedList) \<noteq> None"
        by (intro close_current_succeeds) auto
      then obtain o' c' where
        cc: "close_current AreEqual this pGoalNode ?low (openList, closedList) = Some (o', c')"
        by auto
      show ?thesis
      proof (cases "pNode ?low = pGoalNode")
        case True
        with 1(2) st Cons show ?thesis by auto
      next
        case False
        with 1(2) st Cons cc have "srch AreEqual this pGoalNode (?low, o', c') = Some y"
          by simp
        from 1(1)[OF this] hyp show ?thesis by blast
      qed
    qed
  qed
qed

lemma search_failure_free:
  assumes "nonnegative_costs (m_pGraph this)" and "\<forall>x. AreEqual x x"
  shows "search AreEqual this pGoalNode state \<noteq> Some (Inl e)"
  using search_failure_free_aux[of AreEqual this pGoalNode state "Inl e"] assms by blast

lemma find_previous_Inl: "find_previous G cur cl = Inl e \<Longrightarrow> e = NullConnection"
  by (induction cl) (auto split: option.splits if_splits)

lemma reconstruct_Inl_aux:
  assumes run: "reconstruct G s cl cur path = Some y"
  shows "\<forall>e. y = Inl e \<longrightarrow> e = NullConnection"
  by (rule reconstruct.raw_induct
        [where P = "\<lambda>G s cl cur path y. \<forall>e. y = Inl e \<longrightarrow> e = NullConnection", OF _ run])
     (auto split: if_splits sum.splits option.splits dest: find_previous_Inl)

lemma FindPath_never_asserts:
  assumes "nonnegative_costs (m_pGraph this)" and "\<forall>x. AreEqual x x"
  shows "FindPath AreEqual this pStartNode pGoalNode \<noteq> Some (Inl AssertionFailed)"
proof
  assume fp: "FindPath AreEqual this pStartNode pGoalNode = Some (Inl AssertionFailed)"
  then obtain found where
    found: "search AreEqual this pGoalNode (initial_state this pStartNode pGoalNode) = Some found"
    and walk: "backtrack this pStartNode pGoalNode found = Some (Inl AssertionFailed)"
    by (auto simp: FindPath_def bind_eq_Some_conv)
  show False
  proof (cases found)
    case (Inl e)
    with found search_failure_free[where AreEqual = AreEqual, OF assms] show False by blast
  next
    case (Inr triple)
    obtain cur openList closedList where t: "triple = (cur, openList, closedList)"
      by (cases triple)
    from walk Inr t obtain y where
      y: "reconstruct (m_pGraph this) pStartNode closedList cur [pGoalNode] = Some y"
      and "map_sum id rev y = Inl AssertionFailed"
      by (auto simp: backtrack_def)
    then have "y = Inl AssertionFailed" by (cases y) auto
    with reconstruct_Inl_aux[OF y] show False by simp
  qed
qed

text \<open>
  C10. On a graph whose connections all have a cost of at least \<open>0\<close>, and with an
  \<open>AreEqual\<close> that holds between a number and itself, the record selected in a pass of
  the search loop is still in the open list after its own expansion, \<^verbatim>\<open>std::find\<close>
  finds it at the end of the pass, and neither the search loop, from whatever state, nor
  \<^verbatim>\<open>FindPath\<close> ever stops at the assertion.
\<close>

theorem current_record_found:
  assumes "nonnegative_costs (m_pGraph this)" and "\<forall>x. AreEqual x x"
  shows "lowest_fCost first (first # rest)
           \<in> set (fst (expand this pGoalNode (lowest_fCost first (first # rest))
                         (first # rest, closedList)))
       \<and> close_current AreEqual this pGoalNode (lowest_fCost first (first # rest))
           (first # rest, closedList) \<noteq> None
       \<and> search AreEqual this pGoalNode state \<noteq> Some (Inl AssertionFailed)
       \<and> FindPath AreEqual this pStartNode pGoalNode \<noteq> Some (Inl AssertionFailed)"
  using close_current_succeeds(1)
      [where AreEqual = AreEqual, OF assms lowest_fCost_in_open[of first rest]]
    close_current_succeeds(2)
      [where AreEqual = AreEqual, OF assms lowest_fCost_in_open[of first rest]]
    search_failure_free[where AreEqual = AreEqual, OF assms]
    FindPath_never_asserts[where AreEqual = AreEqual, OF assms]
  by blast

text \<open>Facts about the concrete graphs that the instances below share.\<close>

lemmas run_defs =
  FindPath_def initial_state_def backtrack_def lowest_fCost_def lower_fCost_def
  startRecord_def close_current_def expand_def process_connection_def newRecord_def
  GetHeuristicCost_def NodeRecord_eq_def within_epsilon_def zero_heuristic_def
  Manhattan_def rec4_def recR_def

lemmas graph4_defs = astar4_def graph4_def node4_at_def connections4_def

lemmas dead_end_defs =
  dead_end_astar_def dead_end_graph_def node4_at_def dead_end_connections_def

lemmas graphR_defs = astarR_def graphR_def nodeR_at_def connectionsR_def

lemma within_epsilon_refl: "\<forall>x. within_epsilon x x"
  by (simp add: within_epsilon_def)

lemma graph4_nonnegative: "nonnegative_costs (m_pGraph astar4)"
proof -
  have "0 \<le> cost4 pConn" for pConn
    by (cases pConn) simp_all
  then show ?thesis
    by (simp add: nonnegative_costs_def astar4_def graph4_def)
qed

lemma graph4_first_pass:
  "close_current within_epsilon astar4 NodeD (rec4 NodeA None 0) ([rec4 NodeA None 0], [])
   = Some ([rec4 NodeB (Some ConnAB) 1, rec4 NodeC (Some ConnAC) 4], [rec4 NodeA None 0])"
  by (simp add: run_defs graph4_defs)

lemma graph4_search:
  "search within_epsilon astar4 NodeD (initial_state astar4 NodeA NodeD)
   = Some (Inr (rec4 NodeD (Some ConnBD) 6, [rec4 NodeD (Some ConnBD) 6],
                [rec4 NodeA None 0, rec4 NodeB (Some ConnAB) 1]))"
  by (simp add: run_defs graph4_defs search.simps)

lemma graph4_FindPath:
  "FindPath within_epsilon astar4 NodeA NodeD = Some (Inr [NodeA, NodeB, NodeD])"
  by (simp add: run_defs graph4_defs search.simps reconstruct.simps)

lemma dead_end_search:
  "search within_epsilon dead_end_astar NodeD (initial_state dead_end_astar NodeA NodeD)
   = Some (Inr (rec4 NodeB (Some ConnAB) 1, [],
                [rec4 NodeA None 0, rec4 NodeB (Some ConnAB) 1]))"
  by (simp add: run_defs dead_end_defs search.simps)

lemma dead_end_FindPath:
  "FindPath within_epsilon dead_end_astar NodeA NodeD = Some (Inr [NodeA, NodeD])"
  by (simp add: run_defs dead_end_defs search.simps reconstruct.simps)

text \<open>
  C10, on the graph of the concrete scenario: its costs are not negative, the comparison
  within the tolerance holds between a number and itself, the start record A is in the
  open list after its expansion and is found there, and the call from A to D does not stop
  at the assertion.
\<close>

theorem current_record_found_witness:
  "nonnegative_costs (m_pGraph astar4)
   \<and> (\<forall>x. within_epsilon x x)
   \<and> rec4 NodeA None 0
       \<in> set (fst (expand astar4 NodeD (rec4 NodeA None 0) ([rec4 NodeA None 0], [])))
   \<and> close_current within_epsilon astar4 NodeD (rec4 NodeA None 0) ([rec4 NodeA None 0], [])
       \<noteq> None
   \<and> FindPath within_epsilon astar4 NodeA NodeD \<noteq> Some (Inl AssertionFailed)"
proof -
  have low: "lowest_fCost (rec4 NodeA None 0) [rec4 NodeA None 0] = rec4 NodeA None 0"
    by (simp add: lowest_fCost_def lower_fCost_def)
  show ?thesis
    using current_record_found
      [where AreEqual = within_epsilon, OF graph4_nonnegative within_epsilon_refl,
       of "rec4 NodeA None 0" "[]" NodeD "[]" "initial_state astar4 NodeA NodeD" NodeA]
      graph4_nonnegative within_epsilon_refl
    unfolding low by simp
qed

section \<open>Records of a run and the walk back\<close>

lemma scan_closed_set: "set (snd (scan_closed t g xs)) \<subseteq> set xs"
  by (induction xs) auto

lemma scan_open_set: "set (snd (scan_open t g xs)) \<subseteq> set xs"
  by (induction xs) auto

lemma find_erase_set: "find_erase AreEqual x xs = Some ys \<Longrightarrow> set ys \<subseteq> set xs"
  by (induction xs arbitrary: ys) (auto split: if_splits)

lemma sound_startRecord: "sound_record G s (startRecord this s g)"
  by (simp add: sound_record_def startRecord_def)

lemma sound_newRecord:
  "pConn \<in> set (GetNodeConnections (m_pGraph this) idx) \<Longrightarrow>
   sound_record (m_pGraph this) s (newRecord this pGoalNode pConn g)"
  by (auto simp: sound_record_def newRecord_def)

lemma process_connection_sound:
  assumes "\<forall>r \<in> set (fst worklists) \<union> set (snd worklists). sound_record (m_pGraph this) s r"
    and "pConn \<in> set (GetNodeConnections (m_pGraph this) idx)"
  shows "\<forall>r \<in> set (fst (process_connection this pGoalNode cur worklists pConn))
             \<union> set (snd (process_connection this pGoalNode cur worklists pConn)).
           sound_record (m_pGraph this) s r"
proof -
  obtain openList closedList where w: "worklists = (openList, closedList)"
    by (cases worklists)
  let ?t = "GetNode (m_pGraph this) (GetTo (m_pGraph this) pConn)"
  let ?g = "GetCost (m_pGraph this) pConn + gCost cur"
  have new: "sound_record (m_pGraph this) s (newRecord this pGoalNode pConn ?g)"
    using assms(2) by (rule sound_newRecord)
  have "\<forall>r \<in> set (snd (scan_open ?t ?g openList)). sound_record (m_pGraph this) s r"
    and "\<forall>r \<in> set (snd (scan_closed ?t ?g closedList)). sound_record (m_pGraph this) s r"
    using assms(1) scan_open_set[of ?t ?g openList] scan_closed_set[of ?t ?g closedList]
    unfolding w by auto
  with new assms(1) show ?thesis
    unfolding w by (auto simp add: process_connection_unfold)
qed

lemma foldl_process_connection_sound:
  assumes "\<forall>r \<in> set (fst worklists) \<union> set (snd worklists). sound_record (m_pGraph this) s r"
    and "set conns \<subseteq> set (GetNodeConnections (m_pGraph this) idx)"
  shows "\<forall>r \<in> set (fst (foldl (process_connection this pGoalNode cur) worklists conns))
             \<union> set (snd (foldl (process_connection this pGoalNode cur) worklists conns)).
           sound_record (m_pGraph this) s r"
  using assms
proof (induction conns arbitrary: worklists)
  case Nil
  then show ?case by simp
next
  case (Cons pConn conns)
  have "pConn \<in> set (GetNodeConnections (m_pGraph this) idx)"
    using Cons.prems(2) by simp
  with Cons.prems(1)
  have "\<forall>r \<in> set (fst (process_connection this pGoalNode cur worklists pConn))
             \<union> set (snd (process_connection this pGoalNode cur worklists pConn)).
           sound_record (m_pGraph this) s r"
    by (rule process_connection_sound)
  moreover have "set conns \<subseteq> set (GetNodeConnections (m_pGraph this) idx)"
    using Cons.prems(2) by simp
  ultimately show ?case
    using Cons.IH by simp
qed

lemma close_current_sound:
  assumes "\<forall>r \<in> set openList \<union> set closedList. sound_record (m_pGraph this) s r"
    and "sound_record (m_pGraph this) s cur"
    and "close_current AreEqual this pGoalNode cur (openList, closedList) = Some (o', c')"
  shows "\<forall>r \<in> set o' \<union> set c'. sound_record (m_pGraph this) s r"
proof -
  let ?e = "expand this pGoalNode cur (openList, closedList)"
  have e: "\<forall>r \<in> set (fst ?e) \<union> set (snd ?e). sound_record (m_pGraph this) s r"
    unfolding expand_def using assms(1)
    by (intro foldl_process_connection_sound
          [where idx = "GetIndex (m_pGraph this) (pNode cur)"]) simp_all
  from assms(3) have "find_erase AreEqual cur (fst ?e) = Some o'" and "c' = snd ?e @ [cur]"
    by (auto simp: close_current_def case_prod_beta)
  with e assms(2) find_erase_set[of AreEqual cur "fst ?e" o'] show ?thesis
    by auto
qed

text \<open>Soundness of the records is kept by every pass of the search loop.\<close>

lemma search_sound_aux:
  assumes run: "search AreEqual this pGoalNode state = Some y"
  shows "(\<forall>r \<in> insert (fst state) (set (fst (snd state)) \<union> set (snd (snd state))).
            sound_record (m_pGraph this) s r)
         \<longrightarrow> (\<forall>cur' o' c'. y = Inr (cur', o', c') \<longrightarrow>
               (\<forall>r \<in> insert cur' (set o' \<union> set c'). sound_record (m_pGraph this) s r))"
proof (rule search.raw_induct
    [where P = "\<lambda>AreEqual this pGoalNode state y.
       (\<forall>r \<in> insert (fst state) (set (fst (snd state)) \<union> set (snd (snd state))).
            sound_record (m_pGraph this) s r)
         \<longrightarrow> (\<forall>cur' o' c'. y = Inr (cur', o', c') \<longrightarrow>
               (\<forall>r \<in> insert cur' (set o' \<union> set c'). sound_record (m_pGraph this) s r))",
     OF _ run], goal_cases)
  case (1 srch AreEqual this pGoalNode state y)
  obtain cur openList closedList where st: "state = (cur, openList, closedList)"
    by (cases state)
  show ?case
  proof (intro impI allI)
    fix cur' o' c'
    assume inv: "\<forall>r \<in> insert (fst state) (set (fst (snd state)) \<union> set (snd (snd state))).
            sound_record (m_pGraph this) s r"
      and y: "y = Inr (cur', o', c')"
    from inv st have inv_cur: "sound_record (m_pGraph this) s cur"
      and inv_lists: "\<forall>r \<in> set openList \<union> set closedList. sound_record (m_pGraph this) s r"
      by simp_all
    show "\<forall>r \<in> insert cur' (set o' \<union> set c'). sound_record (m_pGraph this) s r"
    proof (cases openList)
      case Nil
      from 1(2) have "y = Inr (cur, [], closedList)"
        unfolding st Nil by simp
      with y have "cur' = cur" "o' = []" "c' = closedList" by auto
      with inv_cur inv_lists show ?thesis by simp
    next
      case (Cons first rest)
      let ?low = "lowest_fCost first openList"
      have low_in: "?low \<in> set openList"
        unfolding Cons by (rule lowest_fCost_in_open)
      with inv_lists have low_sound: "sound_record (m_pGraph this) s ?low" by simp
      show ?thesis
      proof (cases "pNode ?low = pGoalNode")
        case True
        from 1(2) True have "y = Inr (?low, openList, closedList)"
          unfolding st Cons by simp
        with y have "cur' = ?low" "o' = openList" "c' = closedList" by auto
        with inv_lists low_sound show ?thesis by simp
      next
        case False
        show ?thesis
        proof (cases "close_current AreEqual this pGoalNode ?low (openList, closedList)")
          case None
          from 1(2) False None have "y = Inl AssertionFailed"
            unfolding st Cons by simp
          with y show ?thesis by simp
        next
          case (Some lists')
          obtain o'' c'' where l: "lists' = (o'', c'')" by (cases lists')
          from 1(2) False Some
          have rec: "srch AreEqual this pGoalNode (?low, o'', c'') = Some y"
            unfolding st Cons l by simp
          have "\<forall>r \<in> set o'' \<union> set c''. sound_record (m_pGraph this) s r"
            using inv_lists low_sound Some[unfolded l]
            by (rule close_current_sound)
          with low_sound
          have "\<forall>r \<in> insert (fst (?low, o'', c''))
                  (set (fst (snd (?low, o'', c''))) \<union> set (snd (snd (?low, o'', c'')))).
                  sound_record (m_pGraph this) s r"
            by simp
          with 1(1)[OF rec] y show ?thesis by blast
        qed
      qed
    qed
  qed
qed

lemma search_sound:
  assumes "search AreEqual this pGoalNode (initial_state this pStartNode pGoalNode)
           = Some (Inr (cur, openList, closedList))"
  shows "\<forall>r \<in> insert cur (set openList \<union> set closedList).
           sound_record (m_pGraph this) pStartNode r"
  using search_sound_aux[OF assms, of pStartNode]
    sound_startRecord[of "m_pGraph this" pStartNode this pGoalNode]
  by (simp add: initial_state_def)

lemma find_previous_Some:
  "find_previous G cur cl = Inr (Some r) \<Longrightarrow>
   r \<in> set cl \<and> (\<exists>pConn. pConnection cur = Some pConn \<and> pNode r = GetNode G (GetFrom G pConn))"
  by (induction cl) (auto split: option.splits if_splits)

lemma find_previous_null: "find_previous G cur cl = Inl e \<Longrightarrow> pConnection cur = None"
  by (induction cl) (auto split: option.splits if_splits)

lemma sound_record_joined:
  assumes "sound_record G s cur" and "pConnection cur = Some pConn"
  shows "joined G (GetNode G (GetFrom G pConn)) (pNode cur)"
  using assms by (auto simp: sound_record_def joined_def)

text \<open>
  The walk back, from sound records and a non-empty path: it does not meet a null
  connection, what it returns starts as the path started, and when the path ends at
  the current record's node and is a chain of joined nodes, so is what it returns. The
  path is in the order of \<^verbatim>\<open>push_back\<close>, goal first.
\<close>

lemma reconstruct_result_aux:
  assumes run: "reconstruct G s cl cur path = Some y"
  shows "(\<forall>r \<in> set cl. sound_record G s r) \<and> sound_record G s cur \<and> path \<noteq> []
         \<longrightarrow> (\<exists>p. y = Inr p \<and> p \<noteq> [] \<and> hd p = hd path
               \<and> (last path = pNode cur \<and> successively (\<lambda>v u. joined G u v) path
                    \<longrightarrow> successively (\<lambda>v u. joined G u v) p))"
proof (rule reconstruct.raw_induct
    [where P = "\<lambda>G s cl cur path y.
       (\<forall>r \<in> set cl. sound_record G s r) \<and> sound_record G s cur \<and> path \<noteq> []
         \<longrightarrow> (\<exists>p. y = Inr p \<and> p \<noteq> [] \<and> hd p = hd path
               \<and> (last path = pNode cur \<and> successively (\<lambda>v u. joined G u v) path
                    \<longrightarrow> successively (\<lambda>v u. joined G u v) p))",
     OF _ run], goal_cases)
  case (1 rc G s cl cur path y)
  show ?case
  proof (intro impI)
    assume inv: "(\<forall>r \<in> set cl. sound_record G s r) \<and> sound_record G s cur \<and> path \<noteq> []"
    show "\<exists>p. y = Inr p \<and> p \<noteq> [] \<and> hd p = hd path
               \<and> (last path = pNode cur \<and> successively (\<lambda>v u. joined G u v) path
                    \<longrightarrow> successively (\<lambda>v u. joined G u v) p)"
    proof (cases "pNode cur = s")
      case True
      with 1(2) have "y = Inr path" by simp
      with inv show ?thesis by simp
    next
      case False
      with inv obtain pConn where conn: "pConnection cur = Some pConn"
        by (cases "pConnection cur") (auto simp: sound_record_def)
      show ?thesis
      proof (cases "find_previous G cur cl")
        case (Inl e)
        with conn find_previous_null[of G cur cl e] show ?thesis by simp
      next
        case (Inr found)
        show ?thesis
        proof (cases found)
          case None
          with 1(2) False Inr have "rc G s cl cur path = Some y" by simp
          from 1(1)[OF this] inv show ?thesis by blast
        next
          case (Some r)
          with 1(2) False Inr have rec: "rc G s cl r (path @ [pNode r]) = Some y" by simp
          from Inr Some conn find_previous_Some[of G cur cl r]
          have r_in: "r \<in> set cl" and r_node: "pNode r = GetNode G (GetFrom G pConn)"
            by auto
          from inv conn r_node have link: "joined G (pNode r) (pNode cur)"
            using sound_record_joined[of G s cur pConn] by simp
          from inv r_in
          have "(\<forall>r \<in> set cl. sound_record G s r) \<and> sound_record G s r \<and> path @ [pNode r] \<noteq> []"
            by simp
          with 1(1)[OF rec] obtain p where p: "y = Inr p" "p \<noteq> []" "hd p = hd (path @ [pNode r])"
            and chain: "last (path @ [pNode r]) = pNode r
                \<and> successively (\<lambda>v u. joined G u v) (path @ [pNode r])
                \<longrightarrow> successively (\<lambda>v u. joined G u v) p"
            by blast
          have "hd p = hd path" using p(3) inv by simp
          moreover have "successively (\<lambda>v u. joined G u v) p"
            if "last path = pNode cur" "successively (\<lambda>v u. joined G u v) path"
            using chain that link by (simp add: successively_append_iff)
          ultimately show ?thesis using p(1,2) by blast
        qed
      qed
    qed
  qed
qed

lemma FindPath_after_search:
  assumes "search AreEqual this pGoalNode (initial_state this pStartNode pGoalNode)
           = Some (Inr (cur, openList, closedList))"
  shows "FindPath AreEqual this pStartNode pGoalNode
         = map_option (map_sum id rev)
             (reconstruct (m_pGraph this) pStartNode closedList cur [pGoalNode])"
  using assms by (simp add: FindPath_def backtrack_def)

section \<open>The open list runs empty\<close>

text \<open>
  C4, as stated, fails. On the graph whose only connection is A\<rightarrow>B the search from A for
  D expands A and B and leaves the loop with an empty open list, B being the current
  record; \<^verbatim>\<open>FindPath\<close> then returns the two nodes A, D: a non-empty sequence, not
  an empty or otherwise distinguished failure result.
\<close>

theorem exhausted_search_returns_sequence:
  "search within_epsilon dead_end_astar NodeD (initial_state dead_end_astar NodeA NodeD)
   = Some (Inr (rec4 NodeB (Some ConnAB) 1, [],
                [rec4 NodeA None 0, rec4 NodeB (Some ConnAB) 1]))
   \<and> FindPath within_epsilon dead_end_astar NodeA NodeD = Some (Inr [NodeA, NodeD])"
  using dead_end_search dead_end_FindPath by simp

text \<open>
  C4, amended. When the search loop of \<^verbatim>\<open>FindPath(start, goal)\<close> is left with an
  empty open list, the call does not stop at the assertion or at a null connection, and
  every sequence it returns is non-empty and ends with the goal.
\<close>

theorem FindPath_exhausted:
  assumes "search AreEqual this pGoalNode (initial_state this pStartNode pGoalNode)
           = Some (Inr (cur, [], closedList))"
  shows "(\<forall>e. FindPath AreEqual this pStartNode pGoalNode \<noteq> Some (Inl e))
       \<and> (\<forall>path. FindPath AreEqual this pStartNode pGoalNode = Some (Inr path)
             \<longrightarrow> path \<noteq> [] \<and> last path = pGoalNode)"
proof -
  note fp = FindPath_after_search[OF assms]
  have inv: "(\<forall>r \<in> set closedList. sound_record (m_pGraph this) pStartNode r)
           \<and> sound_record (m_pGraph this) pStartNode cur \<and> [pGoalNode] \<noteq> []"
    using search_sound[OF assms] by simp
  have "\<exists>p. y = Inr p \<and> p \<noteq> [] \<and> hd p = pGoalNode"
    if "reconstruct (m_pGraph this) pStartNode closedList cur [pGoalNode] = Some y" for y
    using reconstruct_result_aux[OF that] inv by auto
  then show ?thesis
    unfolding fp by (auto simp: last_rev)
qed

text \<open>
  C4, amended, on the graph whose only connection is A\<rightarrow>B: the search from A for D is
  left with an empty open list, the call does not stop at a null connection, and the
  sequence returned ends with D.
\<close>

theorem FindPath_exhausted_witness:
  "search within_epsilon dead_end_astar NodeD (initial_state dead_end_astar NodeA NodeD)
   = Some (Inr (rec4 NodeB (Some ConnAB) 1, [],
                [rec4 NodeA None 0, rec4 NodeB (Some ConnAB) 1]))
   \<and> FindPath within_epsilon dead_end_astar NodeA NodeD \<noteq> Some (Inl NullConnection)
   \<and> FindPath within_epsilon dead_end_astar NodeA NodeD = Some (Inr [NodeA, NodeD])
   \<and> last [NodeA, NodeD] = NodeD"
  using FindPath_exhausted[OF dead_end_search] dead_end_search dead_end_FindPath
  by simp

section \<open>Validity of the returned path\<close>

text \<open>
  C6, as stated, fails. On the graph whose only connection is A\<rightarrow>B, where D cannot be
  reached from A, the call from A to D returns the sequence A, D, and no connection of
  the graph leads from A to D.
\<close>

theorem returned_sequence_not_joined:
  "FindPath within_epsilon dead_end_astar NodeA NodeD = Some (Inr [NodeA, NodeD])
   \<and> \<not> successively (joined dead_end_graph) [NodeA, NodeD]"
proof -
  have "\<not> joined dead_end_graph NodeA NodeD"
    by (auto simp: joined_def dead_end_graph_def dead_end_connections_def node4_at_def
        split: if_splits)
  with dead_end_FindPath show ?thesis by simp
qed

text \<open>
  C6, amended. When the search loop of \<^verbatim>\<open>FindPath(start, goal)\<close> is left at a record
  of the goal and the call returns a sequence, every two consecutive nodes \<open>u\<close>, \<open>v\<close> of
  the sequence are joined by a connection of the graph with source \<open>u\<close> and destination
  \<open>v\<close>.
\<close>

theorem FindPath_goal_path_valid:
  assumes "search AreEqual this pGoalNode (initial_state this pStartNode pGoalNode)
           = Some (Inr (cur, openList, closedList))"
    and "pNode cur = pGoalNode"
    and "FindPath AreEqual this pStartNode pGoalNode = Some (Inr path)"
  shows "successively (joined (m_pGraph this)) path"
proof -
  note fp = FindPath_after_search[OF assms(1)]
  with assms(3) obtain y where
    y: "reconstruct (m_pGraph this) pStartNode closedList cur [pGoalNode] = Some y"
    and path: "map_sum id rev y = Inr path"
    by auto
  have inv: "(\<forall>r \<in> set closedList. sound_record (m_pGraph this) pStartNode r)
           \<and> sound_record (m_pGraph this) pStartNode cur \<and> [pGoalNode] \<noteq> []"
    using search_sound[OF assms(1)] by simp
  from reconstruct_result_aux[OF y] inv assms(2)
  obtain p where "y = Inr p" and chain: "successively (\<lambda>v u. joined (m_pGraph this) u v) p"
    by auto
  with path have "path = rev p" by auto
  with chain show ?thesis
    by (simp add: successively_rev)
qed

text \<open>
  The amended statement is about the runs that end at a record of the goal and about
  nothing else. The open list can also run empty although the goal can be reached, when
  a stale record is erased and no cheaper one is pushed: with Q\<rightarrow>P listed twice, the
  call from S to G expands S, P, Q and P again, erases the open record of G on the way,
  and returns S, Q, G, where no connection leads from Q to G.
\<close>

lemma twice_listed_search:
  "search within_epsilon astarR_twice NodeG (initial_state astarR_twice NodeS NodeG)
   = Some (Inr (recR NodeP (Some ConnQP) 2 2, [],
                [recR NodeS None 0 0, recR NodeQ (Some ConnSQ) 1 101,
                 recR NodeP (Some ConnQP) 2 2]))"
  by (simp add: run_defs astarR_twice_def graphR_twice_def nodeR_at_def
      connectionsR_twice_def search.simps)

lemma twice_listed_FindPath:
  "FindPath within_epsilon astarR_twice NodeS NodeG = Some (Inr [NodeS, NodeQ, NodeG])
   \<and> \<not> joined graphR_twice NodeQ NodeG
   \<and> joined graphR_twice NodeS NodeQ
   \<and> joined graphR_twice NodeQ NodeP
   \<and> joined graphR_twice NodeP NodeG"
proof -
  have "FindPath within_epsilon astarR_twice NodeS NodeG = Some (Inr [NodeS, NodeQ, NodeG])"
    by (simp add: run_defs astarR_twice_def graphR_twice_def nodeR_at_def
        connectionsR_twice_def search.simps reconstruct.simps)
  moreover have "\<not> joined graphR_twice NodeQ NodeG"
    by (auto simp: joined_def graphR_twice_def connectionsR_twice_def nodeR_at_def
        split: if_splits)
  moreover have "joined graphR_twice NodeS NodeQ"
    unfolding joined_def
    by (intro exI[of _ 0] bexI[of _ ConnSQ])
       (simp_all add: graphR_twice_def connectionsR_twice_def nodeR_at_def)
  moreover have "joined graphR_twice NodeQ NodeP"
    unfolding joined_def
    by (intro exI[of _ 2] bexI[of _ ConnQP])
       (simp_all add: graphR_twice_def connectionsR_twice_def nodeR_at_def)
  moreover have "joined graphR_twice NodeP NodeG"
    unfolding joined_def
    by (intro exI[of _ 1] bexI[of _ ConnPG])
       (simp_all add: graphR_twice_def connectionsR_twice_def nodeR_at_def)
  ultimately show ?thesis by simp
qed

text \<open>
  C6, amended, on the graph of the concrete scenario: the search from A for D is left at
  the record of D, the call returns A, B, D, and A\<rightarrow>B and B\<rightarrow>D are connections of the
  graph.
\<close>

theorem FindPath_goal_path_valid_witness:
  "search within_epsilon astar4 NodeD (initial_state astar4 NodeA NodeD)
   = Some (Inr (rec4 NodeD (Some ConnBD) 6, [rec4 NodeD (Some ConnBD) 6],
                [rec4 NodeA None 0, rec4 NodeB (Some ConnAB) 1]))
   \<and> pNode (rec4 NodeD (Some ConnBD) 6) = NodeD
   \<and> FindPath within_epsilon astar4 NodeA NodeD = Some (Inr [NodeA, NodeB, NodeD])
   \<and> joined graph4 NodeA NodeB
   \<and> joined graph4 NodeB NodeD"
proof -
  have goal: "pNode (rec4 NodeD (Some ConnBD) 6) = NodeD"
    by (simp add: rec4_def)
  have "successively (joined (m_pGraph astar4)) [NodeA, NodeB, NodeD]"
    using FindPath_goal_path_valid[OF graph4_search goal graph4_FindPath] .
  then have "joined graph4 NodeA NodeB \<and> joined graph4 NodeB NodeD"
    by (simp add: astar4_def)
  with graph4_search goal graph4_FindPath show ?thesis by simp
qed

section \<open>A cheaper way to a node that already has a record\<close>

text \<open>
  C2 at the graph of the concrete scenario, in the call from A to D. The first pass
  expands A and leaves B (cost 1) and C (cost 4) open; the second pass selects B, and its
  connection B\<rightarrow>C reaches C at cost 2. The record of C with cost 4 is erased from the open
  list and no record of C is put in its place: B alone stays open.
\<close>

theorem stale_open_record_not_replaced:
  "close_current within_epsilon astar4 NodeD (rec4 NodeA None 0) ([rec4 NodeA None 0], [])
   = Some ([rec4 NodeB (Some ConnAB) 1, rec4 NodeC (Some ConnAC) 4], [rec4 NodeA None 0])
   \<and> lowest_fCost (rec4 NodeB (Some ConnAB) 1)
         [rec4 NodeB (Some ConnAB) 1, rec4 NodeC (Some ConnAC) 4]
       = rec4 NodeB (Some ConnAB) 1
   \<and> process_connection astar4 NodeD (rec4 NodeB (Some ConnAB) 1)
         ([rec4 NodeB (Some ConnAB) 1, rec4 NodeC (Some ConnAC) 4], [rec4 NodeA None 0])
         ConnBC
       = ([rec4 NodeB (Some ConnAB) 1], [rec4 NodeA None 0])"
  using graph4_first_pass by (simp add: run_defs graph4_defs)

text \<open>
  C1 at the graph of the concrete scenario. With C gone from the open list, the second
  pass leaves only D open, reached over B\<rightarrow>D: the call from A to D returns A, B, D, of
  cost 6, and not A, B, C, D of cost 3.
\<close>

theorem scenario_returns_A_B_D:
  "FindPath within_epsilon astar4 NodeA NodeD = Some (Inr [NodeA, NodeB, NodeD])
   \<and> cost4 ConnAB + cost4 ConnBD = 6"
  using graph4_FindPath by simp

text \<open>
  C3 at the graph with nodes S, P, Q, G, in the call from S to G. Two passes expand S and
  P and leave Q and G open, S and P (cost 10) closed; the third pass selects Q, and its
  connection Q\<rightarrow>P reaches P at cost 2. The record of P is erased from the closed list and
  the connection is skipped: the open list is as before, P has no record at all.
\<close>

theorem stale_closed_record_not_reopened:
  "close_current within_epsilon astarR NodeG (recR NodeS None 0 0) ([recR NodeS None 0 0], [])
   = Some ([recR NodeP (Some ConnSP) 10 10, recR NodeQ (Some ConnSQ) 1 101],
           [recR NodeS None 0 0])
   \<and> close_current within_epsilon astarR NodeG (recR NodeP (Some ConnSP) 10 10)
         ([recR NodeP (Some ConnSP) 10 10, recR NodeQ (Some ConnSQ) 1 101],
          [recR NodeS None 0 0])
       = Some ([recR NodeQ (Some ConnSQ) 1 101, recR NodeG (Some ConnPG) 210 210],
               [recR NodeS None 0 0, recR NodeP (Some ConnSP) 10 10])
   \<and> lowest_fCost (recR NodeQ (Some ConnSQ) 1 101)
         [recR NodeQ (Some ConnSQ) 1 101, recR NodeG (Some ConnPG) 210 210]
       = recR NodeQ (Some ConnSQ) 1 101
   \<and> process_connection astarR NodeG (recR NodeQ (Some ConnSQ) 1 101)
         ([recR NodeQ (Some ConnSQ) 1 101, recR NodeG (Some ConnPG) 210 210],
          [recR NodeS None 0 0, recR NodeP (Some ConnSP) 10 10])
         ConnQP
       = ([recR NodeQ (Some ConnSQ) 1 101, recR NodeG (Some ConnPG) 210 210],
          [recR NodeS None 0 0])"
  by (simp add: run_defs graphR_defs)

section \<open>A walk back that never ends\<close>

text \<open>
  When no closed record belongs to the source of the current record's connection, the
  \<^verbatim>\<open>while\<close> loop of step 3 repeats in the same state for ever.
\<close>

lemma reconstruct_stuck:
  assumes "pNode cur \<noteq> s" and "find_previous G cur closedList = Inr None"
  shows "reconstruct G s closedList cur path = None"
proof (rule ccontr)
  assume "reconstruct G s closedList cur path \<noteq> None"
  then obtain y where y: "reconstruct G s closedList cur path = Some y" by auto
  have "\<not> (pNode cur \<noteq> s \<and> find_previous G cur closedList = Inr None)"
    by (rule reconstruct.raw_induct
          [where P = "\<lambda>G s cl cur path y.
                        \<not> (pNode cur \<noteq> s \<and> find_previous G cur cl = Inr None)",
           OF _ y])
       (force split: if_splits)
  with assms show False by simp
qed

lemma graphR_nonnegative: "nonnegative_costs graphR"
proof -
  have "0 \<le> costR pConn" for pConn
    by (cases pConn) simp_all
  then show ?thesis
    by (simp add: nonnegative_costs_def graphR_def)
qed

lemma graphR_search:
  "search within_epsilon astarR NodeG (initial_state astarR NodeS NodeG)
   = Some (Inr (recR NodeG (Some ConnPG) 210 210, [recR NodeG (Some ConnPG) 210 210],
                [recR NodeS None 0 0, recR NodeQ (Some ConnSQ) 1 101]))"
  by (simp add: run_defs graphR_defs search.simps)

text \<open>
  C5 at the graph with nodes S, P, Q, G, whose four costs are positive. The search from S
  for G ends at the record of G, which was reached over P\<rightarrow>G; the record of P has been
  erased from the closed list, so the walk back finds no record for P and the call never
  returns.
\<close>

theorem FindPath_does_not_return:
  "FindPath within_epsilon astarR NodeS NodeG = None"
proof -
  have "reconstruct graphR NodeS [recR NodeS None 0 0, recR NodeQ (Some ConnSQ) 1 101]
          (recR NodeG (Some ConnPG) 210 210) [NodeG] = None"
    by (rule reconstruct_stuck) (simp_all add: recR_def graphR_defs)
  then show ?thesis
    using FindPath_after_search[OF graphR_search] by (simp add: astarR_def)
qed

end
